theory Spec2Isabelle
  imports
    Main
    "HOL-Library.Multiset"
    "HOL-Library.Char_ord"
    "HOL-Library.List_Lexorder"
    "HOL-Library.Product_Lexorder"
begin

section \<open>The status aggregator of the credential issuer\<close>

text \<open>
  The embedding follows \<^verbatim>\<open>mergeStrategy\<close> and \<^verbatim>\<open>sortableStrategies\<close> of package
  \<^verbatim>\<open>issuerconfig\<close>. Go strings are byte sequences compared bytewise, which is the
  lexicographic order on \<^typ>\<open>string\<close> given by \<^verbatim>\<open>HOL-Library.List_Lexorder\<close> over
  \<^verbatim>\<open>HOL-Library.Char_ord\<close>. A Go pointer that may be nil is an \<^typ>\<open>'a option\<close>; the
  values below are what a deep read through the pointers gives, which is also what the
  package's tests compare.
\<close>

subsection \<open>Data model\<close>

text \<open>
  Modelled from the spec: the type declarations of the API package \<^verbatim>\<open>v1alpha1\<close> are not
  among the sources. The records follow the published status schema of the spec and the
  composite literals of the tests of packages \<^verbatim>\<open>issuerconfig\<close> and \<^verbatim>\<open>cmd\<close>, which show
  every field used here and which of them are pointers. The fields of all records share one
  name space, so three fields carry a prefix: \<^verbatim>\<open>Type\<close> of the frontend is
  \<open>FrontendType\<close>, \<^verbatim>\<open>CertificateAuthorityData\<close> of the impersonation proxy info is
  \<open>ImpersonationCertificateAuthorityData\<close>, and the two fields of the kubeconfig info are
  \<open>KubeConfigServer\<close> and \<open>KubeConfigCertificateAuthorityData\<close>. A time stamp is a number.
\<close>

type_synonym Time = int

record TokenCredentialRequestAPIInfo =
  Server :: string
  CertificateAuthorityData :: string

record ImpersonationProxyInfo =
  Endpoint :: string
  ImpersonationCertificateAuthorityData :: string

record CredentialIssuerFrontend =
  FrontendType :: string
  TokenCredentialRequestAPIInfo :: "TokenCredentialRequestAPIInfo option"
  ImpersonationProxyInfo :: "ImpersonationProxyInfo option"

text \<open>
  The strategy entry is parametrised by the representation \<^typ>\<open>'f\<close> of what its
  \<^verbatim>\<open>Frontend\<close> pointer stands for: the frontend read through the pointer in the value
  model, an address in the pointer model further down.
\<close>

record 'f CredentialIssuerStrategy =
  Type :: string
  Status :: string
  Reason :: string
  Message :: string
  LastUpdateTime :: Time
  Frontend :: "'f option"

type_synonym Strategy = "CredentialIssuerFrontend CredentialIssuerStrategy"

record CredentialIssuerKubeConfigInfo =
  KubeConfigServer :: string
  KubeConfigCertificateAuthorityData :: string

record CredentialIssuerStatus =
  Strategies :: "Strategy list"
  KubeConfigInfo :: "CredentialIssuerKubeConfigInfo option"

text \<open>
  A run-time panic of the Go code is a value. It carries the status as the panicking call
  left it behind, since \<^verbatim>\<open>mergeStrategy\<close> mutates its argument in place.
\<close>

datatype panic = NilPointerDereference CredentialIssuerStatus

subsection \<open>Constants of the API package\<close>

text \<open>
  Modelled from the spec: the constants of package \<^verbatim>\<open>v1alpha1\<close> are not among the sources.
  The spec names the two strategy types of the priority table and the frontend kind, and
  \<^verbatim>\<open>TestMergeStrategy\<close> writes the frontend kind as this literal.
\<close>

definition KubeClusterSigningCertificateStrategyType :: string where
  "KubeClusterSigningCertificateStrategyType = ''KubeClusterSigningCertificate''"

definition ImpersonationProxyStrategyType :: string where
  "ImpersonationProxyStrategyType = ''ImpersonationProxy''"

definition TokenCredentialRequestAPIFrontendType :: string where
  "TokenCredentialRequestAPIFrontendType = ''TokenCredentialRequestAPI''"

subsection \<open>Ordering of strategies\<close>

definition weights :: "string \<rightharpoonup> int" where
  "weights = [KubeClusterSigningCertificateStrategyType \<mapsto> 2,
              ImpersonationProxyStrategyType \<mapsto> 1]"

text \<open>Reading a Go map at a missing key gives the zero value.\<close>

definition weight :: "string \<Rightarrow> int" where
  "weight t = (case weights t of None \<Rightarrow> 0 | Some w \<Rightarrow> w)"

definition Less :: "'f CredentialIssuerStrategy \<Rightarrow> 'f CredentialIssuerStrategy \<Rightarrow> bool" where
  "Less si sj =
     (let wi = weight (Type si); wj = weight (Type sj)
      in if wi \<noteq> wj then wi > wj else Type si < Type sj)"

text \<open>
  \<^verbatim>\<open>sort.Stable\<close> belongs to the Go standard library, which calls \<^verbatim>\<open>Len\<close>,
  \<^verbatim>\<open>Less\<close> and \<^verbatim>\<open>Swap\<close> of \<^verbatim>\<open>sortableStrategies\<close>. It is modelled by the
  insertion sort that the library runs on every block of up to twenty elements: each element
  in turn moves towards the front for as long as it is \<^verbatim>\<open>Less\<close> than its left neighbour.
  The sorted prefix is kept reversed, so that the left neighbour is the head of the list.
  On longer inputs the library merges the sorted blocks; the outcome is the same, because a
  sequence has only one stable sorting (lemma \<open>sortStable_sort_key\<close> below).
\<close>

fun insertionStep :: "('a \<Rightarrow> 'a \<Rightarrow> bool) \<Rightarrow> 'a \<Rightarrow> 'a list \<Rightarrow> 'a list" where
  "insertionStep lt x [] = [x]"
| "insertionStep lt x (y # ys) =
     (if lt x y then y # insertionStep lt x ys else x # y # ys)"

definition sortStable :: "('a \<Rightarrow> 'a \<Rightarrow> bool) \<Rightarrow> 'a list \<Rightarrow> 'a list" where
  "sortStable lt xs = rev (foldl (\<lambda>acc x. insertionStep lt x acc) [] xs)"

text \<open>The two sort keys of \<^const>\<open>Less\<close> as one value: larger weights first, then the name.\<close>

definition typeKey :: "string \<Rightarrow> int \<times> string" where
  "typeKey t = (- weight t, t)"

definition strategyKey :: "'f CredentialIssuerStrategy \<Rightarrow> int \<times> string" where
  "strategyKey s = typeKey (Type s)"

subsection \<open>The merge\<close>

text \<open>The search loop: the index of the first entry of the given type, if there is one.\<close>

fun findExisting :: "'f CredentialIssuerStrategy list \<Rightarrow> string \<Rightarrow> nat option" where
  "findExisting [] t = None"
| "findExisting (x # xs) t =
     (if Type x = t then Some 0 else map_option Suc (findExisting xs t))"

text \<open>
  Overwrite or append. On values, \<^verbatim>\<open>DeepCopyInto\<close> is the assignment of every field of the
  slot; what it does to pointers is the subject of the pointer model.
\<close>

definition mergeEntries ::
  "'f CredentialIssuerStrategy list \<Rightarrow> 'f CredentialIssuerStrategy \<Rightarrow> 'f CredentialIssuerStrategy list" where
  "mergeEntries strategies strategy =
     (case findExisting strategies (Type strategy) of
        Some i \<Rightarrow> strategies[i := strategy]
      | None \<Rightarrow> strategies @ [strategy])"

definition mergeStrategy :: "CredentialIssuerStatus \<Rightarrow> Strategy \<Rightarrow> panic + CredentialIssuerStatus" where
  "mergeStrategy configToUpdate strategy =
     (let updated = configToUpdate
            \<lparr>Strategies := sortStable Less (mergeEntries (Strategies configToUpdate) strategy)\<rparr>
      in case Frontend strategy of
           None \<Rightarrow> Inr updated
         | Some frontend \<Rightarrow>
             if FrontendType frontend = TokenCredentialRequestAPIFrontendType
             then (case TokenCredentialRequestAPIInfo frontend of
                     None \<Rightarrow> Inl (NilPointerDereference updated)
                   | Some info \<Rightarrow>
                       Inr (updated\<lparr>KubeConfigInfo := Some
                              \<lparr>KubeConfigServer = Server info,
                               KubeConfigCertificateAuthorityData = CertificateAuthorityData info\<rparr>\<rparr>))
             else Inr updated)"

text \<open>The status that a call leaves in \<^verbatim>\<open>*configToUpdate\<close>, whether it returned or panicked.\<close>

fun statusAfter :: "panic + CredentialIssuerStatus \<Rightarrow> CredentialIssuerStatus" where
  "statusAfter (Inl (NilPointerDereference left)) = left"
| "statusAfter (Inr returned) = returned"

text \<open>Merging again into the outcome of a merge; a panic ends the run.\<close>

definition mergeInto :: "panic + CredentialIssuerStatus \<Rightarrow> Strategy \<Rightarrow> panic + CredentialIssuerStatus" where
  "mergeInto outcome strategy =
     (case outcome of Inl p \<Rightarrow> Inl p | Inr status \<Rightarrow> mergeStrategy status strategy)"

text \<open>Strategies merged one at a time, from left to right.\<close>

definition mergeOneAtATime :: "CredentialIssuerStatus \<Rightarrow> Strategy list \<Rightarrow> panic + CredentialIssuerStatus" where
  "mergeOneAtATime status strategies = foldl mergeInto (Inr status) strategies"

text \<open>
  The one shape of frontend on which \<^const>\<open>mergeStrategy\<close> dereferences a nil pointer:
  the token credential request kind without its info.
\<close>

definition missingTokenInfo :: "Strategy \<Rightarrow> bool" where
  "missingTokenInfo strategy =
     (case Frontend strategy of
        None \<Rightarrow> False
      | Some frontend \<Rightarrow>
          FrontendType frontend = TokenCredentialRequestAPIFrontendType
          \<and> TokenCredentialRequestAPIInfo frontend = None)"

definition isTokenFrontend :: "Strategy \<Rightarrow> bool" where
  "isTokenFrontend strategy =
     (case Frontend strategy of
        None \<Rightarrow> False
      | Some frontend \<Rightarrow> FrontendType frontend = TokenCredentialRequestAPIFrontendType)"

text \<open>An entry of the given type with every other field at its Go zero value.\<close>

definition bare :: "string \<Rightarrow> Strategy" where
  "bare t = \<lparr>Type = t, Status = [], Reason = [], Message = [], LastUpdateTime = 0, Frontend = None\<rparr>"

definition emptyStatus :: CredentialIssuerStatus where
  "emptyStatus = \<lparr>Strategies = [], KubeConfigInfo = None\<rparr>"

definition expectedOrder :: "string list" where
  "expectedOrder =
     [KubeClusterSigningCertificateStrategyType, ImpersonationProxyStrategyType,
      ''Type1'', ''Type2'', ''Type3'']"

subsection \<open>Example values\<close>

text \<open>The strategy of the package's test "new entry updating deprecated kubeConfigInfo".\<close>

definition tokenStrategy :: "string \<Rightarrow> TokenCredentialRequestAPIInfo option \<Rightarrow> Strategy" where
  "tokenStrategy t info =
     \<lparr>Type = t, Status = ''Success'', Reason = ''some reason'', Message = ''some message'',
      LastUpdateTime = 1,
      Frontend = Some \<lparr>FrontendType = TokenCredentialRequestAPIFrontendType,
                       TokenCredentialRequestAPIInfo = info,
                       ImpersonationProxyInfo = None\<rparr>\<rparr>"

definition testInfo :: TokenCredentialRequestAPIInfo where
  "testInfo = \<lparr>Server = ''https://test-server'', CertificateAuthorityData = ''test-ca-bundle''\<rparr>"

definition testMirror :: CredentialIssuerKubeConfigInfo where
  "testMirror = \<lparr>KubeConfigServer = ''https://test-server'',
                  KubeConfigCertificateAuthorityData = ''test-ca-bundle''\<rparr>"

text \<open>An unsorted status with one entry of \<^verbatim>\<open>Type1\<close>.\<close>

definition unsortedStatus :: CredentialIssuerStatus where
  "unsortedStatus = \<lparr>Strategies = [bare ''Type2'', bare ''Type1''], KubeConfigInfo = None\<rparr>"

definition shuffledStrategies :: "Strategy list" where
  "shuffledStrategies =
     map bare [''Type3'', ''Type1'', ''ImpersonationProxy'', ''Type2'', ''KubeClusterSigningCertificate'']"

section \<open>Pointer model of the overwrite\<close>

text \<open>
  Whether the overwritten entry shares objects with the merged strategy depends on the
  pointers, which the value model reads through. Here the \<^verbatim>\<open>Frontend\<close> pointer of an
  entry and the two info pointers of a frontend are addresses into a store of objects. The
  store is a list, an address is an index into it, and \<^verbatim>\<open>new\<close> appends, so that a fresh
  address is one not below the length of the store before the allocation.
\<close>

type_synonym addr = nat

datatype object =
    FrontendObject string "addr option" "addr option"
  | TokenInfoObject TokenCredentialRequestAPIInfo
  | ImpersonationInfoObject ImpersonationProxyInfo

type_synonym heap = "object list"

type_synonym StrategyRef = "addr CredentialIssuerStrategy"

definition lookup :: "heap \<Rightarrow> addr \<Rightarrow> object option" where
  "lookup h a = (if a < length h then Some (h ! a) else None)"

text \<open>
  Modelled from the spec: the generated \<^verbatim>\<open>DeepCopyInto\<close> functions of the API package
  \<^verbatim>\<open>v1alpha1\<close> are not among the sources. The spec asks for a deep overwrite after which
  no mutable sub-object is shared, so every object behind a non-nil pointer is copied into a
  newly allocated one. This one copies a \<^verbatim>\<open>TokenCredentialRequestAPIInfo\<close>.
\<close>

definition copyTokenInfo :: "heap \<Rightarrow> addr option \<Rightarrow> heap \<times> addr option" where
  "copyTokenInfo h p =
     (case p of
        None \<Rightarrow> (h, None)
      | Some a \<Rightarrow>
          (case lookup h a of
             Some (TokenInfoObject info) \<Rightarrow> (h @ [TokenInfoObject info], Some (length h))
           | _ \<Rightarrow> (h, None)))"

text \<open>
  Modelled from the spec: the missing generated deep copy of an \<^verbatim>\<open>ImpersonationProxyInfo\<close>,
  as above.
\<close>

definition copyImpersonationInfo :: "heap \<Rightarrow> addr option \<Rightarrow> heap \<times> addr option" where
  "copyImpersonationInfo h p =
     (case p of
        None \<Rightarrow> (h, None)
      | Some a \<Rightarrow>
          (case lookup h a of
             Some (ImpersonationInfoObject info) \<Rightarrow>
               (h @ [ImpersonationInfoObject info], Some (length h))
           | _ \<Rightarrow> (h, None)))"

text \<open>
  Modelled from the spec: the missing generated deep copy of a \<^verbatim>\<open>CredentialIssuerFrontend\<close>:
  its two infos are copied, then a new frontend object pointing to the copies is allocated.
\<close>

definition copyFrontend :: "heap \<Rightarrow> addr option \<Rightarrow> heap \<times> addr option" where
  "copyFrontend h p =
     (case p of
        None \<Rightarrow> (h, None)
      | Some a \<Rightarrow>
          (case lookup h a of
             Some (FrontendObject t tokenInfo impersonationInfo) \<Rightarrow>
               (case copyTokenInfo h tokenInfo of
                  (h1, tokenInfo') \<Rightarrow>
                    (case copyImpersonationInfo h1 impersonationInfo of
                       (h2, impersonationInfo') \<Rightarrow>
                         (h2 @ [FrontendObject t tokenInfo' impersonationInfo'],
                          Some (length h2))))
           | _ \<Rightarrow> (h, None)))"

text \<open>
  Modelled from the spec: the missing generated
  \<^verbatim>\<open>CredentialIssuerStrategy.DeepCopyInto\<close>. It returns the store and the new contents of
  the slot it writes: the fields of the strategy, with the frontend pointer replaced by the
  pointer to the copy.
\<close>

definition DeepCopyInto :: "heap \<Rightarrow> StrategyRef \<Rightarrow> heap \<times> StrategyRef" where
  "DeepCopyInto h strategy =
     (case copyFrontend h (Frontend strategy) of
        (h', frontend') \<Rightarrow> (h', strategy\<lparr>Frontend := frontend'\<rparr>))"

text \<open>
  The search, then the overwrite or the append of \<^verbatim>\<open>mergeStrategy\<close>, on pointers.
  \<^verbatim>\<open>append\<close> stores the strategy as it was passed, frontend pointer included.
\<close>

definition mergeEntriesRef ::
  "heap \<Rightarrow> StrategyRef list \<Rightarrow> StrategyRef \<Rightarrow> heap \<times> StrategyRef list" where
  "mergeEntriesRef h strategies strategy =
     (case findExisting strategies (Type strategy) of
        Some i \<Rightarrow>
          (case DeepCopyInto h strategy of (h', slot) \<Rightarrow> (h', strategies[i := slot]))
      | None \<Rightarrow> (h, strategies @ [strategy]))"

text \<open>The same followed by the sort, which moves entries and leaves the store alone.\<close>

definition mergeStrategiesRef ::
  "heap \<Rightarrow> StrategyRef list \<Rightarrow> StrategyRef \<Rightarrow> heap \<times> StrategyRef list" where
  "mergeStrategiesRef h strategies strategy =
     (case mergeEntriesRef h strategies strategy of
        (h', merged) \<Rightarrow> (h', sortStable Less merged))"

text \<open>
  Reading through the pointers gives the values of the value model. A pointer that is not
  allocated, or that points to an object of another kind, cannot occur in Go; it reads as nil.
\<close>

definition readTokenInfo :: "heap \<Rightarrow> addr option \<Rightarrow> TokenCredentialRequestAPIInfo option" where
  "readTokenInfo h p =
     (case p of None \<Rightarrow> None
      | Some a \<Rightarrow> (case lookup h a of Some (TokenInfoObject info) \<Rightarrow> Some info | _ \<Rightarrow> None))"

definition readImpersonationInfo :: "heap \<Rightarrow> addr option \<Rightarrow> ImpersonationProxyInfo option" where
  "readImpersonationInfo h p =
     (case p of None \<Rightarrow> None
      | Some a \<Rightarrow>
          (case lookup h a of Some (ImpersonationInfoObject info) \<Rightarrow> Some info | _ \<Rightarrow> None))"

definition readFrontend :: "heap \<Rightarrow> addr option \<Rightarrow> CredentialIssuerFrontend option" where
  "readFrontend h p =
     (case p of None \<Rightarrow> None
      | Some a \<Rightarrow>
          (case lookup h a of
             Some (FrontendObject t tokenInfo impersonationInfo) \<Rightarrow>
               Some \<lparr>FrontendType = t,
                     TokenCredentialRequestAPIInfo = readTokenInfo h tokenInfo,
                     ImpersonationProxyInfo = readImpersonationInfo h impersonationInfo\<rparr>
           | _ \<Rightarrow> None))"

definition readStrategy :: "heap \<Rightarrow> StrategyRef \<Rightarrow> Strategy" where
  "readStrategy h s =
     \<lparr>Type = Type s, Status = Status s, Reason = Reason s, Message = Message s,
      LastUpdateTime = LastUpdateTime s, Frontend = readFrontend h (Frontend s)\<rparr>"

text \<open>The addresses of the objects that an entry reaches: its frontend and the infos of it.\<close>

definition reachable :: "heap \<Rightarrow> StrategyRef \<Rightarrow> addr set" where
  "reachable h s =
     (case Frontend s of
        None \<Rightarrow> {}
      | Some a \<Rightarrow>
          insert a (case lookup h a of
                      Some (FrontendObject t tokenInfo impersonationInfo) \<Rightarrow>
                        set_option tokenInfo \<union> set_option impersonationInfo
                    | _ \<Rightarrow> {}))"

subsection \<open>Example values\<close>

text \<open>
  The starting entry of the package's test "existing entry to update", and a store that
  holds the frontend of \<^const>\<open>tokenStrategy\<close> at address 1 and its info at address 0.
\<close>

definition errorEntry :: "string \<Rightarrow> 'f CredentialIssuerStrategy" where
  "errorEntry t = \<lparr>Type = t, Status = ''Error'', Reason = ''some starting reason'',
     Message = ''some starting message'', LastUpdateTime = 0, Frontend = None\<rparr>"

definition errorStatus :: CredentialIssuerStatus where
  "errorStatus = \<lparr>Strategies = [errorEntry ''Type1''], KubeConfigInfo = None\<rparr>"

definition testHeap :: heap where
  "testHeap = [TokenInfoObject testInfo,
               FrontendObject TokenCredentialRequestAPIFrontendType (Some 0) None]"

definition tokenStrategyRef :: "string \<Rightarrow> addr \<Rightarrow> StrategyRef" where
  "tokenStrategyRef t a =
     \<lparr>Type = t, Status = ''Success'', Reason = ''some reason'', Message = ''some message'',
      LastUpdateTime = 1, Frontend = Some a\<rparr>"

definition copiedHeap :: heap where
  "copiedHeap = testHeap @ [TokenInfoObject testInfo,
                            FrontendObject TokenCredentialRequestAPIFrontendType (Some 2) None]"

section \<open>The steady-state check of the agent pods\<close>

text \<open>
  \<^verbatim>\<open>ensureKubeCertAgentSteadyState\<close> polls \<^verbatim>\<open>agentPodsReconciled\<close>, which reports whether
  the agent pods match the reference state, and counts the consecutive polls that do.
  The counter is a Go \<^verbatim>\<open>int\<close>; it never leaves the range from 0 to 3.
\<close>

definition wantSteadyStateSnapshots :: int where
  "wantSteadyStateSnapshots = 3"

text \<open>
  The condition function passed to \<^verbatim>\<open>wait.Poll\<close>: from the counter and the answer of
  \<^verbatim>\<open>agentPodsReconciled\<close> to the new counter and whether polling is done.
\<close>

definition condition :: "int \<Rightarrow> bool \<Rightarrow> int \<times> bool" where
  "condition steadyStateSnapshots reconciled =
     (let counted = (if reconciled then steadyStateSnapshots + 1 else 0)
      in (counted, counted = wantSteadyStateSnapshots))"

text \<open>
  \<^verbatim>\<open>wait.Poll\<close> of the Kubernetes library calls the condition at every tick until it
  reports done or the timeout passes. The answers that \<^verbatim>\<open>agentPodsReconciled\<close> gives at
  the ticks before the timeout are a list; the result is the number of polls made when the
  condition reported done, and \<^const>\<open>None\<close> is the timeout error.
\<close>

fun poll :: "int \<Rightarrow> bool list \<Rightarrow> nat option" where
  "poll steadyStateSnapshots [] = None"
| "poll steadyStateSnapshots (reconciled # later) =
     (case condition steadyStateSnapshots reconciled of
        (counted, done) \<Rightarrow> if done then Some 1 else map_option Suc (poll counted later))"

definition ensureKubeCertAgentSteadyState :: "bool list \<Rightarrow> nat option" where
  "ensureKubeCertAgentSteadyState snapshots = poll 0 snapshots"

text \<open>The counter after a sequence of polls, none of which ended the polling.\<close>

definition counterAfter :: "int \<Rightarrow> bool list \<Rightarrow> int" where
  "counterAfter c passes = foldl (\<lambda>c r. fst (condition c r)) c passes"

text \<open>
  In the words of the spec: the number of consecutive matching passes that a sequence of
  passes ends with.
\<close>

definition consecutiveMatches :: "bool list \<Rightarrow> nat" where
  "consecutiveMatches passes = length (takeWhile (\<lambda>matched. matched) (rev passes))"

section \<open>The trust material provider\<close>

text \<open>
  Package \<^verbatim>\<open>dynamiccert\<close> is among the sources with its test only. The provider below is
  written from section 4.1 of the spec. Whether a pair of PEM blocks forms a usable
  certificate is decided by the TLS library; the check is a parameter.
\<close>

type_synonym bytes = string

datatype ValidationError = MalformedPEM | KeyCertificateMismatch

text \<open>
  Modelled from the spec: the state of the missing provider, a serving pair or none, with
  the revision that listeners are told, the registered listeners and the notifications
  delivered so far, each a listener with the revision it was told.
\<close>

record Provider =
  servingPair :: "(bytes \<times> bytes) option"
  revision :: nat
  listeners :: "nat list"
  notified :: "(nat \<times> nat) list"

text \<open>Modelled from the spec: the missing constructor; nothing is set at first.\<close>

definition NewServingCert :: Provider where
  "NewServingCert = \<lparr>servingPair = None, revision = 0, listeners = [], notified = []\<rparr>"

text \<open>
  Modelled from the spec: the missing notification; every listener is called once, in the
  order of registration.
\<close>

definition notifyListeners :: "Provider \<Rightarrow> Provider" where
  "notifyListeners p = p\<lparr>notified := notified p @ map (\<lambda>l. (l, revision p)) (listeners p)\<rparr>"

text \<open>
  Modelled from the spec: the missing \<^verbatim>\<open>SetCertKeyContent\<close>. It "validates that the pair
  forms a usable certificate before swapping; on success it atomically replaces current
  state and notifies listeners; on invalid PEM or key/certificate mismatch it fails without
  mutating state". The result is the error, if any, and the state after the call.
\<close>

definition SetCertKeyContent ::
  "(bytes \<Rightarrow> bytes \<Rightarrow> ValidationError option) \<Rightarrow> bytes \<Rightarrow> bytes \<Rightarrow> Provider
     \<Rightarrow> ValidationError option \<times> Provider" where
  "SetCertKeyContent validate certPEM keyPEM p =
     (case validate certPEM keyPEM of
        Some err \<Rightarrow> (Some err, p)
      | None \<Rightarrow>
          (None, notifyListeners
                   (p\<lparr>servingPair := Some (certPEM, keyPEM), revision := Suc (revision p)\<rparr>)))"

text \<open>
  Modelled from the spec: the missing \<^verbatim>\<open>CurrentCertKeyContent\<close>, which "returns the latest
  snapshot".
\<close>

definition CurrentCertKeyContent :: "Provider \<Rightarrow> (bytes \<times> bytes) option" where
  "CurrentCertKeyContent p = servingPair p"

text \<open>
  Modelled from the spec: the missing \<^verbatim>\<open>UnsetCertKeyContent\<close>, which "clears to absent and
  still notifies listeners".
\<close>

definition UnsetCertKeyContent :: "Provider \<Rightarrow> Provider" where
  "UnsetCertKeyContent p =
     notifyListeners (p\<lparr>servingPair := None, revision := Suc (revision p)\<rparr>)"

text \<open>Modelled from the spec: the missing \<^verbatim>\<open>AddListener\<close>.\<close>

definition AddListener :: "nat \<Rightarrow> Provider \<Rightarrow> Provider" where
  "AddListener l p = p\<lparr>listeners := listeners p @ [l]\<rparr>"

text \<open>
  A stand-in for the check of the TLS library, for examples: a certificate and a key are
  not empty, and the key of a certificate is the certificate after a fixed prefix.
\<close>

definition toyValidate :: "bytes \<Rightarrow> bytes \<Rightarrow> ValidationError option" where
  "toyValidate certPEM keyPEM =
     (if certPEM = [] \<or> keyPEM = [] then Some MalformedPEM
      else if keyPEM \<noteq> ''key of '' @ certPEM then Some KeyCertificateMismatch
      else None)"

section \<open>Properties of the sort\<close>

lemma Less_iff_key: "Less a b \<longleftrightarrow> strategyKey a < strategyKey b"
  by (auto simp: Less_def strategyKey_def typeKey_def Let_def)

lemma strategyKey_eq_iff: "strategyKey a = strategyKey b \<longleftrightarrow> Type a = Type b"
  by (auto simp: strategyKey_def typeKey_def)

lemma mset_insertionStep: "mset (insertionStep lt x acc) = add_mset x (mset acc)"
  by (induction acc) auto

lemma filter_insertionStep:
  assumes "\<And>y. P x \<Longrightarrow> P y \<Longrightarrow> \<not> lt x y"
  shows "filter P (insertionStep lt x acc) = (if P x then x # filter P acc else filter P acc)"
  using assms by (induction acc) auto

lemma desc_insertionStep:
  fixes key :: "'a \<Rightarrow> 'k::linorder"
  assumes lt: "\<And>a b. lt a b \<longleftrightarrow> key a < key b"
    and "sorted_wrt (\<lambda>a b. key b \<le> key a) acc"
  shows "sorted_wrt (\<lambda>a b. key b \<le> key a) (insertionStep lt x acc)"
  using assms(2)
proof (induction acc)
  case Nil
  then show ?case by simp
next
  case (Cons y ys)
  have set_eq: "set (insertionStep lt x ys) = insert x (set ys)"
    by (metis mset_insertionStep set_mset_add_mset_insert set_mset_mset)
  show ?case
  proof (cases "lt x y")
    case True
    then have "key x < key y" using lt by simp
    with Cons set_eq True show ?thesis by auto
  next
    case False
    then have "key y \<le> key x" using lt by (simp add: not_less)
    with Cons False show ?thesis by auto
  qed
qed

lemma mset_foldl_insertionStep:
  "mset (foldl (\<lambda>acc x. insertionStep lt x acc) acc xs) = mset acc + mset xs"
  by (induction xs arbitrary: acc) (auto simp: mset_insertionStep)

lemma filter_foldl_insertionStep:
  assumes "\<And>x y. P x \<Longrightarrow> P y \<Longrightarrow> \<not> lt x y"
  shows "filter P (rev (foldl (\<lambda>acc x. insertionStep lt x acc) acc xs))
         = filter P (rev acc) @ filter P xs"
proof (induction xs arbitrary: acc)
  case Nil
  then show ?case by simp
next
  case (Cons x xs)
  have "filter P (insertionStep lt x acc) = (if P x then x # filter P acc else filter P acc)"
    using assms by (intro filter_insertionStep) blast
  then have "filter P (rev (insertionStep lt x acc)) = filter P (rev acc) @ filter P [x]"
    by (simp flip: rev_filter)
  then show ?case by (simp add: Cons.IH)
qed

lemma desc_foldl_insertionStep:
  fixes key :: "'a \<Rightarrow> 'k::linorder"
  assumes lt: "\<And>a b. lt a b \<longleftrightarrow> key a < key b"
    and "sorted_wrt (\<lambda>a b. key b \<le> key a) acc"
  shows "sorted_wrt (\<lambda>a b. key b \<le> key a) (foldl (\<lambda>acc x. insertionStep lt x acc) acc xs)"
  using assms(2)
proof (induction xs arbitrary: acc)
  case Nil
  then show ?case by simp
next
  case (Cons x xs)
  have "sorted_wrt (\<lambda>a b. key b \<le> key a) (insertionStep lt x acc)"
    using lt Cons.prems by (rule desc_insertionStep)
  then show ?case by (simp add: Cons.IH)
qed

text \<open>
  For a comparison that is the strict order of a key, the insertion sort computes the one
  stable sorting of its input, which is also what \<^const>\<open>sort_key\<close> computes.
\<close>

lemma sortStable_sort_key:
  fixes key :: "'a \<Rightarrow> 'k::linorder"
  assumes lt: "\<And>a b. lt a b \<longleftrightarrow> key a < key b"
  shows "sortStable lt xs = sort_key key xs"
proof (rule properties_for_sort_key [symmetric])
  show "mset (sortStable lt xs) = mset xs"
    by (simp add: sortStable_def mset_foldl_insertionStep)
next
  fix k assume "k \<in> set (sortStable lt xs)"
  have "filter (\<lambda>x. key k = key x) (rev (foldl (\<lambda>acc x. insertionStep lt x acc) [] xs))
        = filter (\<lambda>x. key k = key x) (rev []) @ filter (\<lambda>x. key k = key x) xs"
    by (rule filter_foldl_insertionStep) (simp add: lt)
  then show "filter (\<lambda>x. key k = key x) (sortStable lt xs) = filter (\<lambda>x. key k = key x) xs"
    by (simp add: sortStable_def)
next
  have "sorted_wrt (\<lambda>a b. key b \<le> key a) (foldl (\<lambda>acc x. insertionStep lt x acc) [] xs)"
    by (rule desc_foldl_insertionStep [OF lt]) simp
  then show "sorted (map key (sortStable lt xs))"
    by (simp add: sortStable_def sorted_map sorted_wrt_rev)
qed

lemma sortStable_Less: "sortStable Less xs = sort_key strategyKey xs"
  by (rule sortStable_sort_key) (rule Less_iff_key)

lemma mset_sortStable_Less: "mset (sortStable Less xs) = mset xs"
  by (simp add: sortStable_Less)

lemma sorted_sortStable_Less: "sorted (map strategyKey (sortStable Less xs))"
  by (simp add: sortStable_Less)

lemma sortStable_Less_sorted: "sorted (map strategyKey xs) \<Longrightarrow> sortStable Less xs = xs"
  by (simp add: sortStable_Less sort_key_id_if_sorted)

lemma filter_Type_sortStable_Less:
  "filter (\<lambda>x. Type x = t) (sortStable Less xs) = filter (\<lambda>x. Type x = t) xs"
proof (cases "t \<in> Type ` set xs")
  case True
  then obtain a where a: "a \<in> set xs" "Type a = t" by auto
  have "filter (\<lambda>y. strategyKey y = strategyKey a) (sort_key strategyKey xs)
        = filter (\<lambda>y. strategyKey y = strategyKey a) xs"
    by (rule sort_key_stable)
  then show ?thesis using a by (simp add: sortStable_Less strategyKey_eq_iff)
next
  case False
  then have "filter (\<lambda>x. Type x = t) xs = []" by (auto simp: filter_empty_conv)
  moreover have "set (sortStable Less xs) = set xs"
    by (metis mset_sortStable_Less set_mset_mset)
  with False have "filter (\<lambda>x. Type x = t) (sortStable Less xs) = []"
    by (auto simp: filter_empty_conv)
  ultimately show ?thesis by simp
qed

section \<open>Properties of the merge\<close>

subsection \<open>Overwrite or append\<close>

lemma mergeEntries_Nil: "mergeEntries [] s = [s]"
  by (simp add: mergeEntries_def)

lemma mergeEntries_Cons:
  "mergeEntries (x # xs) s = (if Type x = Type s then s # xs else x # mergeEntries xs s)"
  by (cases "findExisting xs (Type s)") (simp_all add: mergeEntries_def)

lemma findExisting_None_iff: "findExisting xs t = None \<longleftrightarrow> t \<notin> Type ` set xs"
  by (induction xs) auto

lemma findExisting_Some:
  "findExisting xs t = Some i \<Longrightarrow>
     i < length xs \<and> Type (xs ! i) = t \<and> (\<forall>j<i. Type (xs ! j) \<noteq> t)"
proof (induction xs arbitrary: i)
  case Nil
  then show ?case by simp
next
  case (Cons x xs)
  show ?case
  proof (cases "Type x = t")
    case True
    with Cons.prems show ?thesis by simp
  next
    case False
    with Cons.prems obtain k where k: "findExisting xs t = Some k" "i = Suc k" by auto
    from Cons.IH [OF k(1)] False k(2) show ?thesis
      by (auto simp: less_Suc_eq_0_disj)
  qed
qed

text \<open>After the overwrite or the append, the first entry of the merged type is the merged one.\<close>

lemma filter_mergeEntries:
  "\<exists>rest. filter (\<lambda>x. Type x = Type s) (mergeEntries xs s) = s # rest"
  by (induction xs) (auto simp: mergeEntries_Nil mergeEntries_Cons)

lemma mergeEntries_present:
  "filter (\<lambda>x. Type x = Type s) ys = s # rest \<Longrightarrow> mergeEntries ys s = ys"
  by (induction ys) (auto simp: mergeEntries_Cons split: if_splits)

lemma set_Type_mergeEntries:
  "Type ` set (mergeEntries xs s) = insert (Type s) (Type ` set xs)"
  by (induction xs) (auto simp: mergeEntries_Nil mergeEntries_Cons)

lemma distinct_mergeEntries:
  "distinct (map Type xs) \<Longrightarrow> distinct (map Type (mergeEntries xs s))"
proof (induction xs)
  case Nil
  then show ?case by (simp add: mergeEntries_Nil)
next
  case (Cons x xs)
  then show ?case
    using set_Type_mergeEntries [of xs s] by (auto simp: mergeEntries_Cons)
qed

lemma filter_mergeEntries_distinct:
  "distinct (map Type xs) \<Longrightarrow> filter (\<lambda>x. Type x = Type s) (mergeEntries xs s) = [s]"
proof (induction xs)
  case Nil
  then show ?case by (simp add: mergeEntries_Nil)
next
  case (Cons x xs)
  then show ?case
    by (auto simp: mergeEntries_Cons filter_empty_conv image_iff)
qed

subsection \<open>The sorted sequence of a merge\<close>

lemma Strategies_statusAfter:
  "Strategies (statusAfter (mergeStrategy S s)) = sortStable Less (mergeEntries (Strategies S) s)"
  by (simp add: mergeStrategy_def Let_def split: option.splits)

lemma Strategies_mergeStrategy:
  "mergeStrategy S s = Inr S1 \<Longrightarrow> Strategies S1 = sortStable Less (mergeEntries (Strategies S) s)"
  using Strategies_statusAfter [of S s] by simp

lemma distinct_Type_sortStable:
  "distinct (map Type (sortStable Less xs)) \<longleftrightarrow> distinct (map Type xs)"
proof -
  have "mset (map Type (sortStable Less xs)) = mset (map Type xs)"
    by (simp add: mset_sortStable_Less)
  then show ?thesis by (rule mset_eq_imp_distinct_iff)
qed

lemma set_Type_sortStable: "Type ` set (sortStable Less xs) = Type ` set xs"
  by (metis mset_sortStable_Less set_mset_mset)

lemma sortStable_mergeEntries_fixed:
  "sortStable Less (mergeEntries (sortStable Less (mergeEntries xs s)) s)
   = sortStable Less (mergeEntries xs s)"
proof -
  obtain rest where "filter (\<lambda>x. Type x = Type s) (mergeEntries xs s) = s # rest"
    using filter_mergeEntries by blast
  then have "filter (\<lambda>x. Type x = Type s) (sortStable Less (mergeEntries xs s)) = s # rest"
    by (simp add: filter_Type_sortStable_Less)
  then have "mergeEntries (sortStable Less (mergeEntries xs s)) s
             = sortStable Less (mergeEntries xs s)"
    by (rule mergeEntries_present)
  then show ?thesis
    by (simp add: sortStable_Less_sorted sorted_sortStable_Less)
qed

lemma mergeInto_mergeStrategy: "mergeInto (mergeStrategy S s) s = mergeStrategy S s"
  by (simp add: mergeInto_def mergeStrategy_def Let_def sortStable_mergeEntries_fixed
      split: option.splits)

lemma mergeStrategy_returns_iff:
  "(\<exists>S'. mergeStrategy S s = Inr S') \<longleftrightarrow> \<not> missingTokenInfo s"
  by (auto simp: mergeStrategy_def missingTokenInfo_def Let_def split: option.splits)

subsection \<open>Merging one at a time\<close>

lemma foldl_mergeInto_Inl: "foldl mergeInto (Inl p) ss = Inl p"
  by (induction ss) (simp_all add: mergeInto_def)

lemma mergeOneAtATime_Cons:
  "mergeOneAtATime S (s # ss) =
     (case mergeStrategy S s of Inl p \<Rightarrow> Inl p | Inr S1 \<Rightarrow> mergeOneAtATime S1 ss)"
  by (simp add: mergeOneAtATime_def mergeInto_def foldl_mergeInto_Inl split: sum.splits)

lemma mergeOneAtATime_returns:
  "\<forall>s \<in> set ss. \<not> missingTokenInfo s \<Longrightarrow> \<exists>S'. mergeOneAtATime S ss = Inr S'"
proof (induction ss arbitrary: S)
  case Nil
  then show ?case by (simp add: mergeOneAtATime_def)
next
  case (Cons s ss)
  then obtain S1 where "mergeStrategy S s = Inr S1"
    using mergeStrategy_returns_iff [of S s] by auto
  with Cons show ?case by (simp add: mergeOneAtATime_Cons)
qed

lemma mergeOneAtATime_invariant:
  assumes "mergeOneAtATime S ss = Inr S'"
    and "distinct (map Type (Strategies S))"
    and "sorted (map strategyKey (Strategies S))"
  shows "Type ` set (Strategies S') = Type ` set (Strategies S) \<union> Type ` set ss
       \<and> distinct (map Type (Strategies S'))
       \<and> sorted (map strategyKey (Strategies S'))"
  using assms
proof (induction ss arbitrary: S)
  case Nil
  then show ?case by (simp add: mergeOneAtATime_def)
next
  case (Cons s ss)
  from Cons.prems(1) obtain S1
    where S1: "mergeStrategy S s = Inr S1" "mergeOneAtATime S1 ss = Inr S'"
    by (auto simp: mergeOneAtATime_Cons split: sum.splits)
  have str: "Strategies S1 = sortStable Less (mergeEntries (Strategies S) s)"
    using S1(1) by (rule Strategies_mergeStrategy)
  have d: "distinct (map Type (Strategies S1))"
    using Cons.prems(2) by (simp add: str distinct_Type_sortStable distinct_mergeEntries)
  have s: "sorted (map strategyKey (Strategies S1))"
    by (simp add: str sorted_sortStable_Less)
  have t: "Type ` set (Strategies S1) = insert (Type s) (Type ` set (Strategies S))"
    by (simp add: str set_Type_sortStable set_Type_mergeEntries)
  from Cons.IH [OF S1(2) d s] t show ?case by auto
qed

lemma inj_typeKey: "inj_on typeKey A"
  by (auto simp: inj_on_def typeKey_def)

lemma weight_simps:
  "weight KubeClusterSigningCertificateStrategyType = 2"
  "weight ImpersonationProxyStrategyType = 1"
  "t \<noteq> KubeClusterSigningCertificateStrategyType \<Longrightarrow>
     t \<noteq> ImpersonationProxyStrategyType \<Longrightarrow> weight t = 0"
  by (simp_all add: weight_def weights_def KubeClusterSigningCertificateStrategyType_def
      ImpersonationProxyStrategyType_def)

lemma weight_nonneg: "0 \<le> weight t"
  by (simp add: weight_def weights_def)

lemma sorted_expectedOrder: "sorted (map typeKey expectedOrder)"
  by (simp add: expectedOrder_def typeKey_def weight_def weights_def
      KubeClusterSigningCertificateStrategyType_def ImpersonationProxyStrategyType_def)

lemma distinct_expectedOrder: "distinct expectedOrder"
  by (simp add: expectedOrder_def KubeClusterSigningCertificateStrategyType_def
      ImpersonationProxyStrategyType_def)

lemma merged_types_expected:
  assumes perm: "mset (map Type ss) = mset expectedOrder"
    and run: "mergeOneAtATime emptyStatus ss = Inr S"
  shows "map Type (Strategies S) = expectedOrder"
proof -
  have inv: "Type ` set (Strategies S) = Type ` set (Strategies emptyStatus) \<union> Type ` set ss
       \<and> distinct (map Type (Strategies S))
       \<and> sorted (map strategyKey (Strategies S))"
    using run by (rule mergeOneAtATime_invariant) (simp_all add: emptyStatus_def)
  have "set (map Type ss) = set expectedOrder"
    using perm by (rule mset_eq_setD)
  with inv have sets: "set (map Type (Strategies S)) = set expectedOrder"
    by (simp add: emptyStatus_def)
  have key: "map typeKey (map Type (Strategies S)) = map strategyKey (Strategies S)"
    by (simp add: strategyKey_def)
  show ?thesis
  proof (rule map_sorted_distinct_set_unique [where f = typeKey])
    show "inj_on typeKey (set (map Type (Strategies S)) \<union> set expectedOrder)"
      by (rule inj_typeKey)
    show "sorted (map typeKey (map Type (Strategies S)))"
      using inv by (simp only: key)
    show "distinct (map typeKey (map Type (Strategies S)))"
      using inv by (simp add: distinct_map inj_typeKey del: map_map)
    show "sorted (map typeKey expectedOrder)"
      by (rule sorted_expectedOrder)
    show "distinct (map typeKey expectedOrder)"
      by (simp add: distinct_map inj_typeKey distinct_expectedOrder)
    show "set (map Type (Strategies S)) = set expectedOrder"
      by (rule sets)
  qed
qed

section \<open>Properties of the pointer model\<close>

lemma lookup_append: "a < length h \<Longrightarrow> lookup (h @ new) a = lookup h a"
  by (simp add: lookup_def nth_append)

lemma copyTokenInfo_shape:
  assumes "copyTokenInfo h p = (h1, p1)"
  shows "(h1 = h \<and> p1 = None \<and> readTokenInfo h p = None)
       \<or> (\<exists>info. h1 = h @ [TokenInfoObject info] \<and> p1 = Some (length h)
              \<and> readTokenInfo h p = Some info)"
  using assms
  by (auto simp: copyTokenInfo_def readTokenInfo_def split: option.splits object.splits)

lemma copyImpersonationInfo_shape:
  assumes "copyImpersonationInfo h p = (h1, p1)"
  shows "(h1 = h \<and> p1 = None \<and> readImpersonationInfo h p = None)
       \<or> (\<exists>info. h1 = h @ [ImpersonationInfoObject info] \<and> p1 = Some (length h)
              \<and> readImpersonationInfo h p = Some info)"
  using assms
  by (auto simp: copyImpersonationInfo_def readImpersonationInfo_def split: option.splits object.splits)

lemma readTokenInfo_new:
  "readTokenInfo (h @ TokenInfoObject info # new) (Some (length h)) = Some info"
  by (simp add: readTokenInfo_def lookup_def)

lemma readImpersonationInfo_new:
  "readImpersonationInfo (h @ ImpersonationInfoObject info # new) (Some (length h)) = Some info"
  by (simp add: readImpersonationInfo_def lookup_def)

lemma readImpersonationInfo_token:
  "readImpersonationInfo (h @ [TokenInfoObject info]) q = readImpersonationInfo h q"
  by (auto simp: readImpersonationInfo_def lookup_def nth_append split: option.splits object.splits)

lemma copyFrontend_shape:
  assumes "copyFrontend h p = (h', p')"
  shows "(h' = h \<and> p' = None \<and> readFrontend h p = None)
       \<or> (\<exists>a t tokenInfo impersonationInfo h1 tokenInfo' h2 impersonationInfo'.
             p = Some a \<and> lookup h a = Some (FrontendObject t tokenInfo impersonationInfo)
           \<and> copyTokenInfo h tokenInfo = (h1, tokenInfo')
           \<and> copyImpersonationInfo h1 impersonationInfo = (h2, impersonationInfo')
           \<and> h' = h2 @ [FrontendObject t tokenInfo' impersonationInfo']
           \<and> p' = Some (length h2))"
proof (cases p)
  case None
  with assms show ?thesis by (simp add: copyFrontend_def readFrontend_def)
next
  case (Some a)
  show ?thesis
  proof (cases "lookup h a")
    case None
    with Some assms show ?thesis by (simp add: copyFrontend_def readFrontend_def)
  next
    case obj: (Some obj)
    show ?thesis
    proof (cases obj)
      case (FrontendObject t tokenInfo impersonationInfo)
      obtain h1 tokenInfo' where 1: "copyTokenInfo h tokenInfo = (h1, tokenInfo')"
        by (cases "copyTokenInfo h tokenInfo")
      obtain h2 impersonationInfo' where 2: "copyImpersonationInfo h1 impersonationInfo = (h2, impersonationInfo')"
        by (cases "copyImpersonationInfo h1 impersonationInfo")
      from assms Some obj FrontendObject 1 2
      have "h' = h2 @ [FrontendObject t tokenInfo' impersonationInfo']" "p' = Some (length h2)"
        by (simp_all add: copyFrontend_def)
      with Some obj FrontendObject 1 2 show ?thesis by blast
    next
      case (TokenInfoObject x)
      with Some obj assms show ?thesis by (simp add: copyFrontend_def readFrontend_def)
    next
      case (ImpersonationInfoObject x)
      with Some obj assms show ?thesis by (simp add: copyFrontend_def readFrontend_def)
    qed
  qed
qed

lemma copyFrontend_extends:
  assumes "copyFrontend h p = (h', p')"
  shows "\<exists>new. h' = h @ new"
  using copyFrontend_shape [OF assms]
proof (elim disjE exE conjE)
  assume "h' = h"
  then show ?thesis by simp
next
  fix a t tokenInfo impersonationInfo h1 tokenInfo' h2 impersonationInfo'
  assume 1: "copyTokenInfo h tokenInfo = (h1, tokenInfo')"
    and 2: "copyImpersonationInfo h1 impersonationInfo = (h2, impersonationInfo')"
    and h': "h' = h2 @ [FrontendObject t tokenInfo' impersonationInfo']"
  from copyTokenInfo_shape [OF 1] obtain n1 where "h1 = h @ n1" by auto
  moreover from copyImpersonationInfo_shape [OF 2] obtain n2 where "h2 = h1 @ n2" by auto
  ultimately show ?thesis using h' by simp
qed

lemma copyFrontend_read:
  assumes "copyFrontend h p = (h', p')"
  shows "readFrontend h' p' = readFrontend h p"
  using copyFrontend_shape [OF assms]
proof (elim disjE exE conjE)
  assume "h' = h" "p' = None" "readFrontend h p = None"
  then show ?thesis by (simp add: readFrontend_def)
next
  fix a t tokenInfo impersonationInfo h1 tokenInfo' h2 impersonationInfo'
  assume p: "p = Some a" and obj: "lookup h a = Some (FrontendObject t tokenInfo impersonationInfo)"
    and 1: "copyTokenInfo h tokenInfo = (h1, tokenInfo')"
    and 2: "copyImpersonationInfo h1 impersonationInfo = (h2, impersonationInfo')"
    and h': "h' = h2 @ [FrontendObject t tokenInfo' impersonationInfo']"
    and p': "p' = Some (length h2)"
  have t: "readTokenInfo h' tokenInfo' = readTokenInfo h tokenInfo"
    using copyTokenInfo_shape [OF 1] copyImpersonationInfo_shape [OF 2] h'
    by (auto simp: readTokenInfo_new) (simp add: readTokenInfo_def)+
  have i1: "readImpersonationInfo h1 impersonationInfo = readImpersonationInfo h impersonationInfo"
    using copyTokenInfo_shape [OF 1] by (auto simp: readImpersonationInfo_token)
  have i: "readImpersonationInfo h' impersonationInfo' = readImpersonationInfo h impersonationInfo"
    using copyImpersonationInfo_shape [OF 2] h' i1
    by (auto simp: readImpersonationInfo_new) (simp add: readImpersonationInfo_def)+
  have "readFrontend h' p' = Some \<lparr>FrontendType = t,
          TokenCredentialRequestAPIInfo = readTokenInfo h' tokenInfo',
          ImpersonationProxyInfo = readImpersonationInfo h' impersonationInfo'\<rparr>"
    by (simp add: readFrontend_def p' h' lookup_def)
  with t i p obj show ?thesis by (simp add: readFrontend_def)
qed

lemma copyFrontend_fresh:
  assumes "copyFrontend h p = (h', p')"
  shows "reachable h' (s\<lparr>Frontend := p'\<rparr>) \<subseteq> {length h..<length h'}"
  using copyFrontend_shape [OF assms]
proof (elim disjE exE conjE)
  assume "p' = None"
  then show ?thesis by (simp add: reachable_def)
next
  fix a t tokenInfo impersonationInfo h1 tokenInfo' h2 impersonationInfo'
  assume 1: "copyTokenInfo h tokenInfo = (h1, tokenInfo')"
    and 2: "copyImpersonationInfo h1 impersonationInfo = (h2, impersonationInfo')"
    and h': "h' = h2 @ [FrontendObject t tokenInfo' impersonationInfo']"
    and p': "p' = Some (length h2)"
  have r: "reachable h' (s\<lparr>Frontend := p'\<rparr>)
           = insert (length h2) (set_option tokenInfo' \<union> set_option impersonationInfo')"
    by (simp add: reachable_def p' h' lookup_def)
  from copyTokenInfo_shape [OF 1]
  have a: "set_option tokenInfo' \<subseteq> {length h..<length h1}" "length h \<le> length h1" by auto
  from copyImpersonationInfo_shape [OF 2]
  have b: "set_option impersonationInfo' \<subseteq> {length h1..<length h2}" "length h1 \<le> length h2" by auto
  have "length h' = Suc (length h2)" by (simp add: h')
  with a b show ?thesis unfolding r by auto
qed

lemma DeepCopyInto_props:
  assumes "DeepCopyInto h strategy = (h', slot)"
  shows "\<exists>new. h' = h @ new"
    and "readStrategy h' slot = readStrategy h strategy"
    and "reachable h' slot \<subseteq> {length h..<length h'}"
proof -
  obtain p' where c: "copyFrontend h (Frontend strategy) = (h', p')"
    and slot: "slot = strategy\<lparr>Frontend := p'\<rparr>"
    using assms by (auto simp: DeepCopyInto_def split: prod.splits)
  show "\<exists>new. h' = h @ new" using c by (rule copyFrontend_extends)
  show "readStrategy h' slot = readStrategy h strategy"
    using copyFrontend_read [OF c] by (simp add: readStrategy_def slot)
  show "reachable h' slot \<subseteq> {length h..<length h'}"
    unfolding slot using c by (rule copyFrontend_fresh)
qed

lemma readTokenInfo_append:
  "set_option p \<subseteq> {..<length h} \<Longrightarrow> readTokenInfo (h @ new) p = readTokenInfo h p"
  by (cases p) (simp_all add: readTokenInfo_def lookup_append)

lemma readImpersonationInfo_append:
  "set_option p \<subseteq> {..<length h} \<Longrightarrow> readImpersonationInfo (h @ new) p = readImpersonationInfo h p"
  by (cases p) (simp_all add: readImpersonationInfo_def lookup_append)

lemma readStrategy_append:
  assumes "reachable h x \<subseteq> {..<length h}"
  shows "readStrategy (h @ new) x = readStrategy h x"
proof (cases "Frontend x")
  case None
  then show ?thesis by (simp add: readStrategy_def readFrontend_def)
next
  case (Some a)
  with assms have a: "a < length h" by (simp add: reachable_def)
  then obtain obj where obj: "lookup h a = Some obj" by (simp add: lookup_def)
  show ?thesis
  proof (cases obj)
    case (FrontendObject t tokenInfo impersonationInfo)
    with assms Some obj have "set_option tokenInfo \<subseteq> {..<length h}"
      "set_option impersonationInfo \<subseteq> {..<length h}"
      by (simp_all add: reachable_def)
    with Some obj a FrontendObject show ?thesis
      by (simp add: readStrategy_def readFrontend_def lookup_append
          readTokenInfo_append readImpersonationInfo_append)
  next
    case (TokenInfoObject x)
    with Some obj a show ?thesis by (simp add: readStrategy_def readFrontend_def lookup_append)
  next
    case (ImpersonationInfoObject x)
    with Some obj a show ?thesis by (simp add: readStrategy_def readFrontend_def lookup_append)
  qed
qed

lemma Type_readStrategy: "Type (readStrategy h x) = Type x"
  by (simp add: readStrategy_def)

lemma findExisting_map:
  "(\<And>x. Type (f x) = Type x) \<Longrightarrow> findExisting (map f xs) t = findExisting xs t"
  by (induction xs) simp_all

lemma insertionStep_map:
  assumes "\<And>a b. lt' (f a) (f b) = lt a b"
  shows "insertionStep lt' (f x) (map f acc) = map f (insertionStep lt x acc)"
  by (induction acc) (simp_all add: assms)

lemma foldl_insertionStep_map:
  assumes "\<And>a b. lt' (f a) (f b) = lt a b"
  shows "foldl (\<lambda>acc x. insertionStep lt' x acc) (map f acc) (map f xs)
         = map f (foldl (\<lambda>acc x. insertionStep lt x acc) acc xs)"
proof (induction xs arbitrary: acc)
  case Nil
  then show ?case by simp
next
  case (Cons x xs)
  have "insertionStep lt' (f x) (map f acc) = map f (insertionStep lt x acc)"
    using assms by (rule insertionStep_map)
  then show ?case using Cons.IH [of "insertionStep lt x acc"] by simp
qed

lemma sortStable_map:
  assumes "\<And>a b. lt' (f a) (f b) = lt a b"
  shows "sortStable lt' (map f xs) = map f (sortStable lt xs)"
  using foldl_insertionStep_map [of lt' f lt "[]" xs, OF assms]
  by (simp add: sortStable_def rev_map)

lemma Less_readStrategy: "Less (readStrategy h a) (readStrategy h b) = Less a b"
  by (simp add: Less_def Type_readStrategy)

lemma mergeEntriesRef_refines:
  assumes run: "mergeEntriesRef h refs r = (h', merged)"
    and alloc: "\<forall>x \<in> set refs. reachable h x \<subseteq> {..<length h}"
  shows "map (readStrategy h') merged = mergeEntries (map (readStrategy h) refs) (readStrategy h r)"
proof (cases "findExisting refs (Type r)")
  case None
  with run have "h' = h" "merged = refs @ [r]" by (simp_all add: mergeEntriesRef_def)
  with None show ?thesis
    by (simp add: mergeEntries_def findExisting_map Type_readStrategy)
next
  case (Some i)
  with run obtain slot where d: "DeepCopyInto h r = (h', slot)" and m: "merged = refs[i := slot]"
    by (auto simp: mergeEntriesRef_def split: prod.splits)
  from DeepCopyInto_props(1) [OF d] obtain new where h': "h' = h @ new" by blast
  have old: "map (readStrategy h') refs = map (readStrategy h) refs"
    using alloc by (simp add: h' readStrategy_append)
  have "map (readStrategy h') merged = (map (readStrategy h') refs)[i := readStrategy h' slot]"
    by (simp add: m map_update)
  also have "\<dots> = (map (readStrategy h) refs)[i := readStrategy h r]"
    by (simp add: old DeepCopyInto_props(2) [OF d])
  finally show ?thesis
    using Some by (simp add: mergeEntries_def findExisting_map Type_readStrategy)
qed

lemma mergeStrategiesRef_refines:
  assumes run: "mergeStrategiesRef h refs r = (h', refs')"
    and alloc: "\<forall>x \<in> set refs. reachable h x \<subseteq> {..<length h}"
    and S: "Strategies S = map (readStrategy h) refs"
  shows "map (readStrategy h') refs' = Strategies (statusAfter (mergeStrategy S (readStrategy h r)))"
proof -
  from run obtain merged where m: "mergeEntriesRef h refs r = (h', merged)"
    and r': "refs' = sortStable Less merged"
    by (auto simp: mergeStrategiesRef_def split: prod.splits)
  have "map (readStrategy h') refs' = sortStable Less (map (readStrategy h') merged)"
    unfolding r' by (rule sortStable_map [symmetric]) (rule Less_readStrategy)
  also have "\<dots> = sortStable Less (mergeEntries (Strategies S) (readStrategy h r))"
    using mergeEntriesRef_refines [OF m alloc] by (simp add: S)
  finally show ?thesis by (simp add: Strategies_statusAfter)
qed

lemma overwrite_value:
  assumes "findExisting (Strategies S) (Type s) = Some i"
  shows "i < length (Strategies S) \<and> Type (Strategies S ! i) = Type s
       \<and> (\<forall>j<i. Type (Strategies S ! j) \<noteq> Type s)
       \<and> Strategies (statusAfter (mergeStrategy S s)) = sortStable Less ((Strategies S)[i := s])
       \<and> (sorted (map strategyKey (Strategies S)) \<longrightarrow>
            Strategies (statusAfter (mergeStrategy S s)) = (Strategies S)[i := s])"
proof -
  let ?xs = "Strategies S"
  from findExisting_Some [OF assms]
  have i: "i < length ?xs" "Type (?xs ! i) = Type s" "\<forall>j<i. Type (?xs ! j) \<noteq> Type s"
    by simp_all
  have m: "Strategies (statusAfter (mergeStrategy S s)) = sortStable Less (?xs[i := s])"
    using assms by (simp add: Strategies_statusAfter mergeEntries_def)
  have "map strategyKey (?xs[i := s]) = (map strategyKey ?xs)[i := strategyKey (?xs ! i)]"
    using i(2) by (simp add: map_update strategyKey_def)
  also have "\<dots> = map strategyKey ?xs"
    using i(1) by (metis list_update_id map_update)
  finally have "sorted (map strategyKey ?xs) \<Longrightarrow> sortStable Less (?xs[i := s]) = ?xs[i := s]"
    by (simp add: sortStable_Less_sorted)
  with i m show ?thesis by simp
qed

lemma append_value:
  assumes "findExisting (Strategies S) (Type s) = None"
  shows "(\<forall>x \<in> set (Strategies S). Type x \<noteq> Type s)
       \<and> Strategies (statusAfter (mergeStrategy S s)) = sortStable Less (Strategies S @ [s])
       \<and> mset (Strategies (statusAfter (mergeStrategy S s))) = add_mset s (mset (Strategies S))"
proof -
  have "Type s \<notin> Type ` set (Strategies S)"
    using assms by (simp add: findExisting_None_iff)
  then have "\<forall>x \<in> set (Strategies S). Type x \<noteq> Type s"
    by (metis imageI)
  moreover have "Strategies (statusAfter (mergeStrategy S s)) = sortStable Less (Strategies S @ [s])"
    using assms by (simp add: Strategies_statusAfter mergeEntries_def)
  ultimately show ?thesis by (simp add: mset_sortStable_Less)
qed

lemma overwrite_pointers:
  assumes run: "mergeStrategiesRef h refs r = (h', refs')"
    and alloc: "\<forall>x \<in> set refs. reachable h x \<subseteq> {..<length h}"
    and allocr: "reachable h r \<subseteq> {..<length h}"
    and S: "Strategies S = map (readStrategy h) refs"
    and s: "s = readStrategy h r"
  shows "map (readStrategy h') refs' = Strategies (statusAfter (mergeStrategy S s))
       \<and> take (length h) h' = h
       \<and> (\<forall>i. findExisting refs (Type r) = Some i \<longrightarrow>
            (\<exists>slot. refs' = sortStable Less (refs[i := slot])
                  \<and> readStrategy h' slot = s
                  \<and> reachable h' slot \<inter> {..<length h} = {}
                  \<and> reachable h' slot \<inter> reachable h r = {}
                  \<and> (\<forall>x \<in> set refs. reachable h' slot \<inter> reachable h x = {})))
       \<and> (findExisting refs (Type r) = None \<longrightarrow> h' = h \<and> refs' = sortStable Less (refs @ [r]))"
proof -
  have 1: "map (readStrategy h') refs' = Strategies (statusAfter (mergeStrategy S s))"
    unfolding s using run alloc S by (rule mergeStrategiesRef_refines)
  have 4: "h' = h \<and> refs' = sortStable Less (refs @ [r])" if "findExisting refs (Type r) = None"
    using run that by (simp add: mergeStrategiesRef_def mergeEntriesRef_def)
  have 3: "\<exists>slot. refs' = sortStable Less (refs[i := slot])
                  \<and> readStrategy h' slot = s
                  \<and> reachable h' slot \<inter> {..<length h} = {}
                  \<and> reachable h' slot \<inter> reachable h r = {}
                  \<and> (\<forall>x \<in> set refs. reachable h' slot \<inter> reachable h x = {})
                  \<and> take (length h) h' = h"
    if i: "findExisting refs (Type r) = Some i" for i
  proof -
    from run i obtain slot where d: "DeepCopyInto h r = (h', slot)"
      and r': "refs' = sortStable Less (refs[i := slot])"
      by (auto simp: mergeStrategiesRef_def mergeEntriesRef_def split: prod.splits)
    from DeepCopyInto_props(3) [OF d]
    have fresh: "reachable h' slot \<inter> {..<length h} = {}" by auto
    from DeepCopyInto_props(1) [OF d] have "take (length h) h' = h" by auto
    with fresh alloc allocr r' DeepCopyInto_props(2) [OF d] s show ?thesis
      by (intro exI [of _ slot]) blast
  qed
  have 2: "take (length h) h' = h"
  proof (cases "findExisting refs (Type r)")
    case None
    with 4 show ?thesis by simp
  next
    case (Some i)
    with 3 show ?thesis by blast
  qed
  from 1 2 3 4 show ?thesis by blast
qed

section \<open>Properties of the steady-state check\<close>

lemma counterAfter_Nil: "counterAfter c [] = c"
  by (simp add: counterAfter_def)

lemma counterAfter_Cons: "counterAfter c (r # rs) = counterAfter (fst (condition c r)) rs"
  by (simp add: counterAfter_def)

lemma counterAfter_snoc: "counterAfter c (rs @ [r]) = fst (condition (counterAfter c rs) r)"
  by (simp add: counterAfter_def)

lemma counterAfter_consecutive: "counterAfter 0 passes = int (consecutiveMatches passes)"
  by (induction passes rule: rev_induct)
    (simp_all add: counterAfter_Nil counterAfter_snoc consecutiveMatches_def condition_def Let_def)

lemma poll_iff:
  "poll c obs = Some n \<longleftrightarrow>
     1 \<le> n \<and> n \<le> length obs \<and> counterAfter c (take n obs) = 3
     \<and> (\<forall>k. 1 \<le> k \<and> k < n \<longrightarrow> counterAfter c (take k obs) \<noteq> 3)"
proof (induction obs arbitrary: c n)
  case Nil
  then show ?case by (auto simp: counterAfter_Nil)
next
  case (Cons r rs)
  let ?c = "fst (condition c r)"
  show ?case
  proof (cases "?c = 3")
    case True
    then have p: "poll c (r # rs) = Some 1"
      by (simp add: condition_def wantSteadyStateSnapshots_def Let_def)
    have one: "counterAfter c (take 1 (r # rs)) = 3"
      using True by (simp add: counterAfter_Cons counterAfter_Nil)
    show ?thesis
    proof
      assume "poll c (r # rs) = Some n"
      with p have "n = 1" by simp
      with one show "1 \<le> n \<and> n \<le> length (r # rs) \<and> counterAfter c (take n (r # rs)) = 3
         \<and> (\<forall>k. 1 \<le> k \<and> k < n \<longrightarrow> counterAfter c (take k (r # rs)) \<noteq> 3)" by simp
    next
      assume a: "1 \<le> n \<and> n \<le> length (r # rs) \<and> counterAfter c (take n (r # rs)) = 3
         \<and> (\<forall>k. 1 \<le> k \<and> k < n \<longrightarrow> counterAfter c (take k (r # rs)) \<noteq> 3)"
      have "n = 1"
      proof (rule ccontr)
        assume "n \<noteq> 1"
        with a have "1 < n" by simp
        with a one show False by blast
      qed
      with p show "poll c (r # rs) = Some n" by simp
    qed
  next
    case False
    then have p: "poll c (r # rs) = map_option Suc (poll ?c rs)"
      by (simp add: condition_def wantSteadyStateSnapshots_def Let_def)
    have one: "counterAfter c (take 1 (r # rs)) \<noteq> 3"
      using False by (simp add: counterAfter_Cons counterAfter_Nil)
    show ?thesis
    proof
      assume "poll c (r # rs) = Some n"
      with p obtain m where m: "poll ?c rs = Some m" "n = Suc m" by auto
      from Cons.IH [of ?c m] m(1)
      have ih: "1 \<le> m" "m \<le> length rs" "counterAfter ?c (take m rs) = 3"
        "\<forall>k. 1 \<le> k \<and> k < m \<longrightarrow> counterAfter ?c (take k rs) \<noteq> 3" by simp_all
      have "counterAfter c (take k (r # rs)) \<noteq> 3" if k: "1 \<le> k" "k < n" for k
      proof (cases "k = 1")
        case True
        with one show ?thesis by simp
      next
        case False
        with k obtain j where j: "k = Suc j" "1 \<le> j" "j < m"
          using m(2) by (cases k) auto
        with ih(4) show ?thesis by (simp add: counterAfter_Cons)
      qed
      with ih m(2) show "1 \<le> n \<and> n \<le> length (r # rs) \<and> counterAfter c (take n (r # rs)) = 3
         \<and> (\<forall>k. 1 \<le> k \<and> k < n \<longrightarrow> counterAfter c (take k (r # rs)) \<noteq> 3)"
        by (simp add: counterAfter_Cons)
    next
      assume a: "1 \<le> n \<and> n \<le> length (r # rs) \<and> counterAfter c (take n (r # rs)) = 3
         \<and> (\<forall>k. 1 \<le> k \<and> k < n \<longrightarrow> counterAfter c (take k (r # rs)) \<noteq> 3)"
      with one have "n \<noteq> 1" by auto
      with a obtain m where m: "n = Suc m" "1 \<le> m" by (cases n) auto
      have "counterAfter ?c (take k rs) \<noteq> 3" if "1 \<le> k" "k < m" for k
      proof -
        from that m have "1 \<le> Suc k \<and> Suc k < n" by simp
        with a have "counterAfter c (take (Suc k) (r # rs)) \<noteq> 3" by blast
        then show ?thesis by (simp add: counterAfter_Cons)
      qed
      with a m have "poll ?c rs = Some m"
        using Cons.IH [of ?c m] by (simp add: counterAfter_Cons)
      with p m show "poll c (r # rs) = Some n" by simp
    qed
  qed
qed

lemma consecutiveMatches_Nil: "consecutiveMatches [] = 0"
  by (simp add: consecutiveMatches_def)

lemma consecutiveMatches_snoc:
  "consecutiveMatches (passes @ [matched]) = (if matched then Suc (consecutiveMatches passes) else 0)"
  by (simp add: consecutiveMatches_def)

lemma consecutiveMatches_below:
  assumes "n \<le> length obs"
    and "\<forall>k. 1 \<le> k \<and> k < n \<longrightarrow> consecutiveMatches (take k obs) \<noteq> 3"
    and "k < n"
  shows "consecutiveMatches (take k obs) < 3"
  using assms(3)
proof (induction k)
  case 0
  then show ?case by (simp add: consecutiveMatches_Nil)
next
  case (Suc k)
  then have below: "consecutiveMatches (take k obs) < 3" by simp
  from Suc.prems assms(1) have "take (Suc k) obs = take k obs @ [obs ! k]"
    by (simp add: take_Suc_conv_app_nth)
  then have "consecutiveMatches (take (Suc k) obs) \<le> Suc (consecutiveMatches (take k obs))"
    by (simp add: consecutiveMatches_snoc)
  moreover have "consecutiveMatches (take (Suc k) obs) \<noteq> 3"
    using assms(2) Suc.prems by simp
  ultimately show ?case using below by linarith
qed

lemma ensure_iff:
  "ensureKubeCertAgentSteadyState obs = Some n \<longleftrightarrow>
     1 \<le> n \<and> n \<le> length obs \<and> consecutiveMatches (take n obs) = 3
     \<and> (\<forall>k<n. consecutiveMatches (take k obs) < 3)"
proof
  assume "ensureKubeCertAgentSteadyState obs = Some n"
  then have a: "1 \<le> n" "n \<le> length obs" "consecutiveMatches (take n obs) = 3"
    "\<forall>k. 1 \<le> k \<and> k < n \<longrightarrow> consecutiveMatches (take k obs) \<noteq> 3"
    by (simp_all add: ensureKubeCertAgentSteadyState_def poll_iff counterAfter_consecutive)
  from a(2,4) have "\<forall>k<n. consecutiveMatches (take k obs) < 3"
    using consecutiveMatches_below by blast
  with a show "1 \<le> n \<and> n \<le> length obs \<and> consecutiveMatches (take n obs) = 3
     \<and> (\<forall>k<n. consecutiveMatches (take k obs) < 3)" by simp
next
  assume a: "1 \<le> n \<and> n \<le> length obs \<and> consecutiveMatches (take n obs) = 3
     \<and> (\<forall>k<n. consecutiveMatches (take k obs) < 3)"
  then have "\<forall>k. 1 \<le> k \<and> k < n \<longrightarrow> consecutiveMatches (take k obs) \<noteq> 3"
    by (metis less_irrefl)
  with a show "ensureKubeCertAgentSteadyState obs = Some n"
    by (simp add: ensureKubeCertAgentSteadyState_def poll_iff counterAfter_consecutive)
qed

lemma consecutiveMatches_three:
  assumes "n \<le> length obs" and "consecutiveMatches (take n obs) = 3"
  shows "3 \<le> n \<and> (\<forall>i<3. obs ! (n - 1 - i)) \<and> (3 < n \<longrightarrow> \<not> obs ! (n - 4))"
proof -
  let ?r = "rev (take n obs)"
  let ?t = "takeWhile (\<lambda>matched. matched) ?r"
  have len: "length ?t = 3" using assms(2) by (simp add: consecutiveMatches_def)
  have lr: "length ?r = n" using assms(1) by simp
  have "length ?t \<le> length ?r" by (rule length_takeWhile_le)
  with len lr have n3: "3 \<le> n" by simp
  have idx: "?r ! i = obs ! (n - 1 - i)" if "i < n" for i
    using that assms(1) by (simp add: rev_nth)
  have "obs ! (n - 1 - i)" if i: "i < 3" for i
  proof -
    from i len have "?t ! i = ?r ! i" by (simp add: takeWhile_nth)
    moreover have "?t ! i \<in> set ?t" using i len by simp
    then have "?t ! i" by (auto dest: set_takeWhileD)
    ultimately show ?thesis using idx [of i] i n3 by simp
  qed
  moreover have "\<not> obs ! (n - 4)" if "3 < n"
  proof -
    from that len lr have "length ?t < length ?r" by simp
    then have "\<not> ?r ! length ?t" by (rule nth_length_takeWhile)
    with len idx [of 3] that show ?thesis by simp
  qed
  ultimately show ?thesis using n3 by blast
qed

section \<open>The claims\<close>

text \<open>
  C1, counterexample: the claim as written fails for a strategy of the token credential
  request frontend kind whose info pointer is nil. The merge of it into the empty status
  panics before the mirror is written, and the mirror of the status left behind is absent.
\<close>

theorem mirror_not_set_without_info:
  "isTokenFrontend (tokenStrategy ''Type1'' None)
   \<and> mergeStrategy emptyStatus (tokenStrategy ''Type1'' None)
       = Inl (NilPointerDereference
               \<lparr>Strategies = [tokenStrategy ''Type1'' None], KubeConfigInfo = None\<rparr>)"
  by (simp add: isTokenFrontend_def mergeStrategy_def tokenStrategy_def emptyStatus_def
      mergeEntries_def sortStable_def Let_def)

text \<open>
  C1 (amended): for every status and every strategy whose frontend is of the token credential
  request kind and carries its info, the merge returns and sets the deprecated
  \<^verbatim>\<open>kubeConfigInfo\<close> mirror to the server and the CA data of that info; and merging
  afterwards any strategy whose frontend is absent or of another kind returns and leaves the
  mirror as it was.
\<close>

theorem mirror_set_then_kept:
  assumes "Frontend s = Some frontend"
    and "FrontendType frontend = TokenCredentialRequestAPIFrontendType"
    and "TokenCredentialRequestAPIInfo frontend = Some info"
  shows "\<exists>S1. mergeStrategy S s = Inr S1
           \<and> KubeConfigInfo S1 = Some \<lparr>KubeConfigServer = Server info,
                 KubeConfigCertificateAuthorityData = CertificateAuthorityData info\<rparr>
           \<and> (\<forall>s'. \<not> isTokenFrontend s' \<longrightarrow>
                 (\<exists>S2. mergeStrategy S1 s' = Inr S2 \<and> KubeConfigInfo S2 = KubeConfigInfo S1))"
  using assms
  by (auto simp: mergeStrategy_def isTokenFrontend_def Let_def split: option.splits)

theorem mirror_set_then_kept_witness:
  "\<exists>S1. mergeStrategy unsortedStatus (tokenStrategy ''Type1'' (Some testInfo)) = Inr S1
      \<and> KubeConfigInfo S1 = Some testMirror
      \<and> (\<exists>S2. mergeStrategy S1 (bare ''ImpersonationProxy'') = Inr S2
               \<and> KubeConfigInfo S2 = Some testMirror)"
proof -
  have h1: "Frontend (tokenStrategy ''Type1'' (Some testInfo))
            = Some \<lparr>FrontendType = TokenCredentialRequestAPIFrontendType,
                     TokenCredentialRequestAPIInfo = Some testInfo,
                     ImpersonationProxyInfo = None\<rparr>"
    by (simp add: tokenStrategy_def)
  have h2: "\<not> isTokenFrontend (bare ''ImpersonationProxy'')"
    by (simp add: isTokenFrontend_def bare_def)
  from mirror_set_then_kept [OF h1, of testInfo unsortedStatus] h2
  show ?thesis by (auto simp: testInfo_def testMirror_def)
qed

text \<open>
  C2: the merge is idempotent. Merging \<open>s\<close> into the outcome of merging \<open>s\<close> into \<open>S\<close> is
  the outcome of merging \<open>s\<close> into \<open>S\<close> once; in particular, when the first merge returns
  a status, the second merge returns the same status.
\<close>

theorem mergeStrategy_idempotent:
  "mergeInto (mergeStrategy S s) s = mergeStrategy S s
   \<and> (\<forall>S1. mergeStrategy S s = Inr S1 \<longrightarrow> mergeStrategy S1 s = Inr S1)"
proof -
  have twice: "mergeInto (mergeStrategy S s) s = mergeStrategy S s"
    by (rule mergeInto_mergeStrategy)
  then show ?thesis by (auto simp: mergeInto_def)
qed

theorem mergeStrategy_idempotent_witness:
  "\<exists>S1. mergeStrategy unsortedStatus (tokenStrategy ''Type1'' (Some testInfo)) = Inr S1
      \<and> Strategies S1 = [tokenStrategy ''Type1'' (Some testInfo), bare ''Type2'']
      \<and> mergeStrategy S1 (tokenStrategy ''Type1'' (Some testInfo)) = Inr S1"
proof -
  have "mergeStrategy unsortedStatus (tokenStrategy ''Type1'' (Some testInfo))
        = Inr \<lparr>Strategies = [tokenStrategy ''Type1'' (Some testInfo), bare ''Type2''],
               KubeConfigInfo = Some testMirror\<rparr>"
    by (simp add: mergeStrategy_def unsortedStatus_def tokenStrategy_def bare_def testInfo_def
        testMirror_def mergeEntries_def sortStable_def Less_def weight_def weights_def Let_def
        KubeClusterSigningCertificateStrategyType_def ImpersonationProxyStrategyType_def)
  with mergeStrategy_idempotent
         [of unsortedStatus "tokenStrategy ''Type1'' (Some testInfo)"]
  show ?thesis by auto
qed

text \<open>
  C3: when strategies of the five types are merged one at a time into the empty status, in
  any order, the types of the final sequence are Kube cluster signing certificate,
  impersonation proxy, Type1, Type2, Type3. The comparison puts the larger weight first and,
  at equal weights, the lexically smaller type name first; a type outside the table has
  weight 0, which no weight is below; and the sort orders its input by that comparison,
  keeps its entries, and keeps entries of one type in their relative order.
  The strategies are any whose merge does not dereference a nil info pointer.
\<close>

theorem strategies_order:
  fixes ss :: "Strategy list"
  assumes "mset (map Type ss) = mset expectedOrder"
    and "\<forall>s \<in> set ss. \<not> missingTokenInfo s"
  shows "(\<exists>S. mergeOneAtATime emptyStatus ss = Inr S \<and> map Type (Strategies S) = expectedOrder)
       \<and> (\<forall>a b :: Strategy. Less a b \<longleftrightarrow>
             weight (Type b) < weight (Type a)
             \<or> (weight (Type a) = weight (Type b) \<and> Type a < Type b))
       \<and> (\<forall>t. t \<noteq> KubeClusterSigningCertificateStrategyType
               \<and> t \<noteq> ImpersonationProxyStrategyType \<longrightarrow> weight t = 0)
       \<and> (\<forall>t. 0 \<le> weight t)
       \<and> (\<forall>xs :: Strategy list.
             sorted_wrt (\<lambda>a b. \<not> Less b a) (sortStable Less xs)
           \<and> mset (sortStable Less xs) = mset xs
           \<and> (\<forall>t. filter (\<lambda>x. Type x = t) (sortStable Less xs)
                   = filter (\<lambda>x. Type x = t) xs))"
proof -
  obtain S where S: "mergeOneAtATime emptyStatus ss = Inr S"
    using mergeOneAtATime_returns [OF assms(2)] by blast
  have 1: "\<exists>S. mergeOneAtATime emptyStatus ss = Inr S \<and> map Type (Strategies S) = expectedOrder"
    using S merged_types_expected [OF assms(1) S] by blast
  have 2: "\<forall>a b :: Strategy. Less a b \<longleftrightarrow>
             weight (Type b) < weight (Type a)
             \<or> (weight (Type a) = weight (Type b) \<and> Type a < Type b)"
    by (auto simp: Less_def Let_def)
  have 3: "\<forall>t. t \<noteq> KubeClusterSigningCertificateStrategyType
               \<and> t \<noteq> ImpersonationProxyStrategyType \<longrightarrow> weight t = 0"
    by (simp add: weight_simps)
  have 4: "\<forall>t. 0 \<le> weight t"
    by (simp add: weight_nonneg)
  have 5: "sorted_wrt (\<lambda>a b. \<not> Less b a) (sortStable Less xs)" for xs :: "Strategy list"
    using sorted_sortStable_Less [of xs] by (simp add: sorted_map Less_iff_key not_less)
  show ?thesis
    using 1 2 3 4 5 by (simp add: mset_sortStable_Less filter_Type_sortStable_Less)
qed

theorem strategies_order_witness:
  "mset (map Type shuffledStrategies) = mset expectedOrder
   \<and> (\<exists>S. mergeOneAtATime emptyStatus shuffledStrategies = Inr S
          \<and> map Type (Strategies S) = expectedOrder)"
proof -
  have h1: "mset (map Type shuffledStrategies) = mset expectedOrder"
    by (simp add: shuffledStrategies_def bare_def expectedOrder_def
        KubeClusterSigningCertificateStrategyType_def ImpersonationProxyStrategyType_def)
  have h2: "\<forall>s \<in> set shuffledStrategies. \<not> missingTokenInfo s"
    by (simp add: shuffledStrategies_def bare_def missingTokenInfo_def)
  from strategies_order [OF h1 h2] h1 show ?thesis by blast
qed

text \<open>
  C4: the merge overwrites the first entry of the strategy's type, if there is one, and
  appends the strategy otherwise. With an entry of that type at index \<open>i\<close>, the first such
  index, the strategies left by the merge are the sorted sequence with slot \<open>i\<close>
  overwritten by the strategy, and the very sequence with slot \<open>i\<close> overwritten when the
  strategies were sorted before. Without one, they are the sorted sequence with the
  strategy appended. On pointers, for strategies whose objects are all allocated: what the
  merged entries read as is what the value model computes, no object of the store before
  the call is changed, and every object that the overwritten slot reaches was allocated by
  the call, so that the slot shares no object with the merged strategy, nor with any former
  entry.
\<close>

theorem merge_overwrites_or_appends:
  "(\<forall>i. findExisting (Strategies S) (Type s) = Some i \<longrightarrow>
        i < length (Strategies S) \<and> Type (Strategies S ! i) = Type s
      \<and> (\<forall>j<i. Type (Strategies S ! j) \<noteq> Type s)
      \<and> Strategies (statusAfter (mergeStrategy S s)) = sortStable Less ((Strategies S)[i := s])
      \<and> (sorted (map strategyKey (Strategies S)) \<longrightarrow>
            Strategies (statusAfter (mergeStrategy S s)) = (Strategies S)[i := s]))
   \<and> (findExisting (Strategies S) (Type s) = None \<longrightarrow>
        (\<forall>x \<in> set (Strategies S). Type x \<noteq> Type s)
      \<and> Strategies (statusAfter (mergeStrategy S s)) = sortStable Less (Strategies S @ [s])
      \<and> mset (Strategies (statusAfter (mergeStrategy S s))) = add_mset s (mset (Strategies S)))
   \<and> (\<forall>h refs r h' refs'.
        mergeStrategiesRef h refs r = (h', refs')
      \<and> (\<forall>x \<in> set refs. reachable h x \<subseteq> {..<length h}) \<and> reachable h r \<subseteq> {..<length h}
      \<and> Strategies S = map (readStrategy h) refs \<and> s = readStrategy h r \<longrightarrow>
          map (readStrategy h') refs' = Strategies (statusAfter (mergeStrategy S s))
        \<and> take (length h) h' = h
        \<and> (\<forall>i. findExisting refs (Type r) = Some i \<longrightarrow>
             (\<exists>slot. refs' = sortStable Less (refs[i := slot])
                   \<and> readStrategy h' slot = s
                   \<and> reachable h' slot \<inter> {..<length h} = {}
                   \<and> reachable h' slot \<inter> reachable h r = {}
                   \<and> (\<forall>x \<in> set refs. reachable h' slot \<inter> reachable h x = {})))
        \<and> (findExisting refs (Type r) = None \<longrightarrow> h' = h \<and> refs' = sortStable Less (refs @ [r])))"
proof (intro conjI)
  show "\<forall>i. findExisting (Strategies S) (Type s) = Some i \<longrightarrow>
        i < length (Strategies S) \<and> Type (Strategies S ! i) = Type s
      \<and> (\<forall>j<i. Type (Strategies S ! j) \<noteq> Type s)
      \<and> Strategies (statusAfter (mergeStrategy S s)) = sortStable Less ((Strategies S)[i := s])
      \<and> (sorted (map strategyKey (Strategies S)) \<longrightarrow>
            Strategies (statusAfter (mergeStrategy S s)) = (Strategies S)[i := s])"
    by (intro allI impI) (rule overwrite_value)
  show "findExisting (Strategies S) (Type s) = None \<longrightarrow>
        (\<forall>x \<in> set (Strategies S). Type x \<noteq> Type s)
      \<and> Strategies (statusAfter (mergeStrategy S s)) = sortStable Less (Strategies S @ [s])
      \<and> mset (Strategies (statusAfter (mergeStrategy S s))) = add_mset s (mset (Strategies S))"
    by (intro impI) (rule append_value)
  show "\<forall>h refs r h' refs'.
        mergeStrategiesRef h refs r = (h', refs')
      \<and> (\<forall>x \<in> set refs. reachable h x \<subseteq> {..<length h}) \<and> reachable h r \<subseteq> {..<length h}
      \<and> Strategies S = map (readStrategy h) refs \<and> s = readStrategy h r \<longrightarrow>
          map (readStrategy h') refs' = Strategies (statusAfter (mergeStrategy S s))
        \<and> take (length h) h' = h
        \<and> (\<forall>i. findExisting refs (Type r) = Some i \<longrightarrow>
             (\<exists>slot. refs' = sortStable Less (refs[i := slot])
                   \<and> readStrategy h' slot = s
                   \<and> reachable h' slot \<inter> {..<length h} = {}
                   \<and> reachable h' slot \<inter> reachable h r = {}
                   \<and> (\<forall>x \<in> set refs. reachable h' slot \<inter> reachable h x = {})))
        \<and> (findExisting refs (Type r) = None \<longrightarrow> h' = h \<and> refs' = sortStable Less (refs @ [r]))"
    by (intro allI impI, elim conjE) (rule overwrite_pointers)
qed

theorem merge_overwrites_or_appends_witness:
  "mergeStrategiesRef testHeap [errorEntry ''Type1''] (tokenStrategyRef ''Type1'' 1)
     = (copiedHeap, [tokenStrategyRef ''Type1'' 3])
   \<and> Strategies errorStatus = map (readStrategy testHeap) [errorEntry ''Type1'']
   \<and> tokenStrategy ''Type1'' (Some testInfo) = readStrategy testHeap (tokenStrategyRef ''Type1'' 1)
   \<and> findExisting (Strategies errorStatus) ''Type1'' = Some 0
   \<and> reachable testHeap (tokenStrategyRef ''Type1'' 1) = {0, 1}
   \<and> reachable copiedHeap (tokenStrategyRef ''Type1'' 3) = {2, 3}
   \<and> Strategies (statusAfter (mergeStrategy errorStatus (tokenStrategy ''Type1'' (Some testInfo))))
       = [tokenStrategy ''Type1'' (Some testInfo)]
   \<and> map (readStrategy copiedHeap) [tokenStrategyRef ''Type1'' 3]
       = [tokenStrategy ''Type1'' (Some testInfo)]"
proof -
  let ?s = "tokenStrategy ''Type1'' (Some testInfo)"
  let ?r = "tokenStrategyRef ''Type1'' 1"
  let ?refs = "[errorEntry ''Type1''] :: StrategyRef list"
  have copy: "copyFrontend testHeap (Some (Suc 0)) = (copiedHeap, Some 3)"
    by (simp add: copyFrontend_def copyTokenInfo_def copyImpersonationInfo_def lookup_def
        copiedHeap_def testHeap_def)
  have run: "mergeStrategiesRef testHeap ?refs ?r = (copiedHeap, [tokenStrategyRef ''Type1'' 3])"
    by (simp add: mergeStrategiesRef_def mergeEntriesRef_def DeepCopyInto_def errorEntry_def
        tokenStrategyRef_def copy sortStable_def)
  have alloc: "\<forall>x \<in> set ?refs. reachable testHeap x \<subseteq> {..<length testHeap}"
    by (simp add: reachable_def errorEntry_def)
  have reach: "reachable testHeap ?r = {0, 1}"
    by (auto simp: reachable_def tokenStrategyRef_def lookup_def testHeap_def)
  have allocr: "reachable testHeap ?r \<subseteq> {..<length testHeap}"
    unfolding reach by (simp add: testHeap_def)
  have S: "Strategies errorStatus = map (readStrategy testHeap) ?refs"
    by (simp add: errorStatus_def readStrategy_def errorEntry_def readFrontend_def)
  have s: "?s = readStrategy testHeap ?r"
    by (simp add: tokenStrategy_def readStrategy_def tokenStrategyRef_def readFrontend_def
        readTokenInfo_def readImpersonationInfo_def lookup_def testHeap_def)
  have found: "findExisting (Strategies errorStatus) (Type ?s) = Some 0"
    by (simp add: errorStatus_def errorEntry_def tokenStrategy_def)
  have srt: "sorted (map strategyKey (Strategies errorStatus))"
    by (simp add: errorStatus_def)
  have reach': "reachable copiedHeap (tokenStrategyRef ''Type1'' 3) = {2, 3}"
    by (auto simp: reachable_def tokenStrategyRef_def lookup_def copiedHeap_def testHeap_def)
  note all = merge_overwrites_or_appends [of errorStatus ?s]
  from all found srt
  have overwritten: "Strategies (statusAfter (mergeStrategy errorStatus ?s)) = (Strategies errorStatus)[0 := ?s]"
    by blast
  then have overwritten': "Strategies (statusAfter (mergeStrategy errorStatus ?s)) = [?s]"
    by (simp add: errorStatus_def)
  from all run alloc allocr S s
  have "map (readStrategy copiedHeap) [tokenStrategyRef ''Type1'' 3]
        = Strategies (statusAfter (mergeStrategy errorStatus ?s))"
    by blast
  then have read: "map (readStrategy copiedHeap) [tokenStrategyRef ''Type1'' 3] = [?s]"
    by (simp only: overwritten')
  have found': "findExisting (Strategies errorStatus) ''Type1'' = Some 0"
    by (simp add: errorStatus_def errorEntry_def)
  show ?thesis
    by (intro conjI) (fact run S s found' reach reach' overwritten' read)+
qed

text \<open>
  C5: one entry per type is an invariant of the merge. If the strategies of a status hold at
  most one entry of every type, then so do the strategies that merging \<open>s\<close> leaves, and
  exactly one of them has the type of \<open>s\<close>.
\<close>

theorem merge_keeps_one_entry_per_type:
  assumes "distinct (map Type (Strategies S))"
  shows "distinct (map Type (Strategies (statusAfter (mergeStrategy S s))))
       \<and> length (filter (\<lambda>x. Type x = Type s)
                   (Strategies (statusAfter (mergeStrategy S s)))) = 1"
  using assms
  by (simp add: Strategies_statusAfter distinct_Type_sortStable distinct_mergeEntries
      filter_Type_sortStable_Less filter_mergeEntries_distinct)

theorem merge_keeps_one_entry_per_type_witness:
  "distinct (map Type (Strategies unsortedStatus))
   \<and> distinct (map Type (Strategies (statusAfter (mergeStrategy unsortedStatus (bare ''Type1'')))))
   \<and> length (filter (\<lambda>x. Type x = Type (bare ''Type1''))
               (Strategies (statusAfter (mergeStrategy unsortedStatus (bare ''Type1''))))) = 1"
proof -
  have h: "distinct (map Type (Strategies unsortedStatus))"
    by (simp add: unsortedStatus_def bare_def)
  from merge_keeps_one_entry_per_type [OF h, of "bare ''Type1''"] h show ?thesis by simp
qed

text \<open>
  C6: for every pair of certificate and key that the check accepts,
  \<^verbatim>\<open>SetCertKeyContent\<close> succeeds and \<^verbatim>\<open>CurrentCertKeyContent\<close> then returns that
  certificate and that key, byte for byte.
\<close>

theorem set_then_current:
  assumes "validate certPEM keyPEM = None"
  shows "fst (SetCertKeyContent validate certPEM keyPEM p) = None
       \<and> CurrentCertKeyContent (snd (SetCertKeyContent validate certPEM keyPEM p))
           = Some (certPEM, keyPEM)"
  using assms
  by (simp add: SetCertKeyContent_def CurrentCertKeyContent_def notifyListeners_def)

theorem set_then_current_witness:
  "toyValidate ''cert B'' ''key of cert B'' = None
   \<and> fst (SetCertKeyContent toyValidate ''cert B'' ''key of cert B''
            (AddListener 7 NewServingCert)) = None
   \<and> CurrentCertKeyContent (snd (SetCertKeyContent toyValidate ''cert B'' ''key of cert B''
            (AddListener 7 NewServingCert))) = Some (''cert B'', ''key of cert B'')"
proof -
  have h: "toyValidate ''cert B'' ''key of cert B'' = None"
    by (simp add: toyValidate_def)
  from set_then_current
         [of toyValidate "''cert B''" "''key of cert B''" "AddListener 7 NewServingCert", OF h] h
  show ?thesis by simp
qed

text \<open>
  C7: for every pair that the check rejects, as malformed PEM or as a key that does not match
  the certificate, \<^verbatim>\<open>SetCertKeyContent\<close> returns the error and leaves the state of the
  provider as it was: \<^verbatim>\<open>CurrentCertKeyContent\<close> returns what it returned before the call.
\<close>

theorem invalid_set_fails_unchanged:
  assumes "validate certPEM keyPEM = Some err"
  shows "SetCertKeyContent validate certPEM keyPEM p = (Some err, p)
       \<and> CurrentCertKeyContent (snd (SetCertKeyContent validate certPEM keyPEM p))
           = CurrentCertKeyContent p"
  using assms by (simp add: SetCertKeyContent_def)

theorem invalid_set_fails_unchanged_witness:
  "toyValidate ''cert B'' ''key of cert A'' = Some KeyCertificateMismatch
   \<and> SetCertKeyContent toyValidate ''cert B'' ''key of cert A''
        (snd (SetCertKeyContent toyValidate ''cert A'' ''key of cert A'' NewServingCert))
      = (Some KeyCertificateMismatch,
         snd (SetCertKeyContent toyValidate ''cert A'' ''key of cert A'' NewServingCert))
   \<and> CurrentCertKeyContent
        (snd (SetCertKeyContent toyValidate ''cert B'' ''key of cert A''
          (snd (SetCertKeyContent toyValidate ''cert A'' ''key of cert A'' NewServingCert))))
      = Some (''cert A'', ''key of cert A'')"
proof -
  let ?p = "snd (SetCertKeyContent toyValidate ''cert A'' ''key of cert A'' NewServingCert)"
  have h: "toyValidate ''cert B'' ''key of cert A'' = Some KeyCertificateMismatch"
    by (simp add: toyValidate_def)
  have c: "CurrentCertKeyContent ?p = Some (''cert A'', ''key of cert A'')"
    by (simp add: SetCertKeyContent_def toyValidate_def CurrentCertKeyContent_def
        notifyListeners_def)
  from invalid_set_fails_unchanged
         [of toyValidate "''cert B''" "''key of cert A''" KeyCertificateMismatch ?p, OF h] h c
  show ?thesis by simp
qed

text \<open>
  C8: the steady-state check declares convergence at the first poll at which the number of
  consecutive matching polls is 3, and at no other: the last three polls matched, a fourth
  one before them, if any, did not, and the count was below 3 at every earlier poll. The
  counter of the code is that number, and a poll that does not match sets it to 0 without
  declaring convergence.
\<close>

theorem steady_state:
  "(ensureKubeCertAgentSteadyState snapshots = Some n \<longleftrightarrow>
      1 \<le> n \<and> n \<le> length snapshots \<and> consecutiveMatches (take n snapshots) = 3
      \<and> (\<forall>k<n. consecutiveMatches (take k snapshots) < 3))
   \<and> (ensureKubeCertAgentSteadyState snapshots = Some n \<longrightarrow>
        3 \<le> n \<and> (\<forall>i<3. snapshots ! (n - 1 - i)) \<and> (3 < n \<longrightarrow> \<not> snapshots ! (n - 4)))
   \<and> condition c False = (0, False)
   \<and> counterAfter 0 passes = int (consecutiveMatches passes)
   \<and> consecutiveMatches (passes @ [False]) = 0"
proof -
  have "3 \<le> n \<and> (\<forall>i<3. snapshots ! (n - 1 - i)) \<and> (3 < n \<longrightarrow> \<not> snapshots ! (n - 4))"
    if "ensureKubeCertAgentSteadyState snapshots = Some n"
    using that consecutiveMatches_three [of n snapshots] by (simp add: ensure_iff)
  then show ?thesis
    using ensure_iff [of snapshots n]
    by (simp add: condition_def wantSteadyStateSnapshots_def Let_def counterAfter_consecutive
        consecutiveMatches_snoc)
qed

theorem steady_state_witness:
  "ensureKubeCertAgentSteadyState [True, True, False, True, True, True, True] = Some 6
   \<and> consecutiveMatches (take 6 [True, True, False, True, True, True, True]) = 3
   \<and> ensureKubeCertAgentSteadyState [True, True, False, True, True] = None"
proof -
  have h: "ensureKubeCertAgentSteadyState [True, True, False, True, True, True, True] = Some 6"
    by (simp add: ensureKubeCertAgentSteadyState_def condition_def wantSteadyStateSnapshots_def Let_def)
  have n: "ensureKubeCertAgentSteadyState [True, True, False, True, True] = None"
    by (simp add: ensureKubeCertAgentSteadyState_def condition_def wantSteadyStateSnapshots_def Let_def)
  from h n steady_state [of "[True, True, False, True, True, True, True]" 6]
  show ?thesis by simp
qed

text \<open>
  C10: the merge has a precondition that its signature does not state. It dereferences the
  info pointer of a frontend of the token credential request kind without a nil check, so it
  panics exactly on the strategies whose frontend is of that kind and has no info, and
  returns a merged status on all others.
\<close>

theorem mergeStrategy_nil_info_panics:
  "((\<exists>left. mergeStrategy S s = Inl (NilPointerDereference left)) \<longleftrightarrow> missingTokenInfo s)
   \<and> ((\<exists>S'. mergeStrategy S s = Inr S') \<longleftrightarrow> \<not> missingTokenInfo s)"
  by (auto simp: mergeStrategy_def missingTokenInfo_def Let_def split: option.splits)

theorem mergeStrategy_nil_info_panics_witness:
  "missingTokenInfo (tokenStrategy ''KubeClusterSigningCertificate'' None)
   \<and> (\<exists>left. mergeStrategy unsortedStatus (tokenStrategy ''KubeClusterSigningCertificate'' None)
               = Inl (NilPointerDereference left))
   \<and> \<not> missingTokenInfo (tokenStrategy ''KubeClusterSigningCertificate'' (Some testInfo))
   \<and> (\<exists>S'. mergeStrategy unsortedStatus
               (tokenStrategy ''KubeClusterSigningCertificate'' (Some testInfo)) = Inr S')"
proof -
  have h1: "missingTokenInfo (tokenStrategy ''KubeClusterSigningCertificate'' None)"
    by (simp add: missingTokenInfo_def tokenStrategy_def)
  have h2: "\<not> missingTokenInfo (tokenStrategy ''KubeClusterSigningCertificate'' (Some testInfo))"
    by (simp add: missingTokenInfo_def tokenStrategy_def)
  from h1 h2
    mergeStrategy_nil_info_panics
      [of unsortedStatus "tokenStrategy ''KubeClusterSigningCertificate'' None"]
    mergeStrategy_nil_info_panics
      [of unsortedStatus "tokenStrategy ''KubeClusterSigningCertificate'' (Some testInfo)"]
  show ?thesis by blast
qed

end
